theory Spec2Isabelle
  imports Main "HOL-Library.Word"
begin

section \<open>Strings and the three reserved characters\<close>

text \<open>
  A JavaScript string is a sequence of UTF-16 code units, and the regular expressions of
  \<^verbatim>\<open>key-utils.js\<close> (none has the \<^verbatim>\<open>u\<close> flag) work on code units.
  A string is therefore a list of 16-bit words.  The escape character is the backslash
  (U+005C), \<^verbatim>\<open>tokenSeparator\<close> is U+FFED and \<^verbatim>\<open>keySeparator\<close> is U+FFEE.
\<close>

type_synonym cu = "16 word"
type_synonym jstring = "cu list"

definition backslash :: cu where
  "backslash = 0x5C"

definition tokenSeparator :: cu where
  "tokenSeparator = 0xFFED"

definition keySeparator :: cu where
  "keySeparator = 0xFFEE"

section \<open>String primitives of the host language\<close>

text \<open>
  \<^verbatim>\<open>str.replace(/c/g, r)\<close> for a pattern that is one literal character: every
  occurrence of \<open>c\<close> is replaced by the string \<open>r\<close>.
\<close>

fun replaceChar :: "cu \<Rightarrow> jstring \<Rightarrow> jstring \<Rightarrow> jstring" where
  "replaceChar c r [] = []"
| "replaceChar c r (x # xs) = (if x = c then r @ replaceChar c r xs else x # replaceChar c r xs)"

text \<open>
  \<^verbatim>\<open>str.replace(/ab/g, r)\<close> for a pattern of two literal characters: the string is
  scanned from the left, a match is replaced and the scan resumes behind it, so matches
  do not overlap.
\<close>

fun replacePair :: "cu \<Rightarrow> cu \<Rightarrow> jstring \<Rightarrow> jstring \<Rightarrow> jstring" where
  "replacePair a b r (x # y # xs) =
     (if x = a \<and> y = b then r @ replacePair a b r xs else x # replacePair a b r (y # xs))"
| "replacePair a b r xs = xs"

section \<open>The escaper\<close>

definition escape :: "jstring \<Rightarrow> jstring" where
  "escape str =
     replaceChar keySeparator [backslash, keySeparator]
       (replaceChar tokenSeparator [backslash, tokenSeparator]
         (replaceChar backslash [backslash, backslash] str))"

definition unescape :: "jstring \<Rightarrow> jstring" where
  "unescape str =
     replacePair backslash backslash [backslash]
       (replacePair backslash keySeparator [keySeparator]
         (replacePair backslash tokenSeparator [tokenSeparator] str))"

section \<open>Searching, splitting and joining\<close>

text \<open>\<^verbatim>\<open>text.startsWith(pat)\<close>, written out as the comparison it performs.\<close>

fun isPrefixOf :: "jstring \<Rightarrow> jstring \<Rightarrow> bool" where
  "isPrefixOf [] ys = True"
| "isPrefixOf (x # xs) [] = False"
| "isPrefixOf (x # xs) (y # ys) = (x = y \<and> isPrefixOf xs ys)"

text \<open>
  \<^verbatim>\<open>text.indexOf(pat)\<close>: the smallest index at which \<open>pat\<close> occurs in
  \<open>text\<close>, and \<open>-1\<close> when it occurs nowhere.
\<close>

fun indexOf :: "jstring \<Rightarrow> jstring \<Rightarrow> int" where
  "indexOf [] pat = (if pat = [] then 0 else - 1)"
| "indexOf (x # xs) pat =
     (if isPrefixOf pat (x # xs) then 0
      else (let i = indexOf xs pat in if i < 0 then - 1 else i + 1))"

text \<open>
  A compiled pattern is represented by its matcher: applied to the part of the subject
  that starts at the current index, it returns the length of the match found there, or
  \<open>None\<close>.  This covers the patterns of this module, which have no capture groups and
  no assertion about what precedes the current index.
\<close>

type_synonym matcher = "jstring \<Rightarrow> nat option"

text \<open>
  The loop of \<^verbatim>\<open>split\<close> for a non-empty subject.  \<open>acc\<close> holds, reversed, the
  characters between the end of the last separator (index \<open>p\<close>) and the current index
  \<open>q\<close>; the third argument is the subject from \<open>q\<close> on.  Where the matcher fails, or
  matches the empty string at \<open>p\<close> itself, \<open>q\<close> advances by one; otherwise the piece
  from \<open>p\<close> to \<open>q\<close> is emitted and both indices move to the end of the match.  At the
  end of the subject the remaining piece is emitted.
\<close>

function splitLoop :: "matcher \<Rightarrow> jstring \<Rightarrow> jstring \<Rightarrow> jstring list" where
  "splitLoop m acc [] = [rev acc]"
| "splitLoop m acc (x # xs) =
     (case m (x # xs) of
        None \<Rightarrow> splitLoop m (x # acc) xs
      | Some k \<Rightarrow>
          if k = 0 \<and> acc = [] then splitLoop m (x # acc) xs
          else rev acc # splitLoop m [] (drop k (x # xs)))"
  by pat_completeness auto
termination
  by (relation "measure (\<lambda>(m, acc, xs). 2 * length xs + (if acc = [] then 0 else 1))") auto

text \<open>
  \<^verbatim>\<open>text.split(regex)\<close>: an empty subject gives no piece at all when the pattern
  matches the empty string and the one piece \<^verbatim>\<open>""\<close> otherwise.
\<close>

definition regexSplit :: "matcher \<Rightarrow> jstring \<Rightarrow> jstring list" where
  "regexSplit m text =
     (if text = [] then (case m [] of None \<Rightarrow> [[]] | Some k \<Rightarrow> []) else splitLoop m [] text)"

text \<open>\<^verbatim>\<open>text.split(separator)\<close> for a separator that is a one-character string.\<close>

definition matchChar :: "cu \<Rightarrow> matcher" where
  "matchChar sep xs = (case xs of [] \<Rightarrow> None | c # rest \<Rightarrow> if c = sep then Some 1 else None)"

definition splitString :: "cu \<Rightarrow> jstring \<Rightarrow> jstring list" where
  "splitString sep text = splitLoop (matchChar sep) [] text"

text \<open>\<^verbatim>\<open>pieces.join(sep)\<close> for a one-character separator.\<close>

fun joinWith :: "cu \<Rightarrow> jstring list \<Rightarrow> jstring" where
  "joinWith sep [] = []"
| "joinWith sep [x] = x"
| "joinWith sep (x # y # ys) = x @ sep # joinWith sep (y # ys)"

section \<open>The unescaped-split engine\<close>

text \<open>
  The pattern \<^verbatim>\<open>separator(?:\\\\)*(?!\\)\<close> that
  \<^verbatim>\<open>splitOnUnescapedSeparator\<close> compiles, for a separator that is an ordinary
  character of a pattern, as both separators of the module are.  The group
  \<^verbatim>\<open>(?:\\\\)*\<close> is greedy: it first takes as many pairs of backslashes as there
  are, then the lookahead \<^verbatim>\<open>(?!\\)\<close> is tried, and on failure the group gives
  one pair back and the lookahead is tried again.
\<close>

fun backslashPairs :: "jstring \<Rightarrow> nat" where
  "backslashPairs (a # b # xs) =
     (if a = backslash \<and> b = backslash then Suc (backslashPairs xs) else 0)"
| "backslashPairs xs = 0"

fun notBackslashAhead :: "jstring \<Rightarrow> bool" where
  "notBackslashAhead [] = True"
| "notBackslashAhead (x # xs) = (x \<noteq> backslash)"

fun backtrackPairs :: "nat \<Rightarrow> jstring \<Rightarrow> nat option" where
  "backtrackPairs 0 xs = (if notBackslashAhead xs then Some 0 else None)"
| "backtrackPairs (Suc n) xs =
     (if notBackslashAhead (drop (2 * Suc n) xs) then Some (2 * Suc n)
      else backtrackPairs n xs)"

definition unescapedSeparatorRegex :: "cu \<Rightarrow> matcher" where
  "unescapedSeparatorRegex sep xs =
     (case xs of
        [] \<Rightarrow> None
      | c # rest \<Rightarrow>
          if c = sep then map_option Suc (backtrackPairs (backslashPairs rest) rest)
          else None)"

definition reverseSplit :: "jstring \<Rightarrow> matcher \<Rightarrow> jstring list" where
  "reverseSplit text reverseSeparator = rev (map rev (regexSplit reverseSeparator (rev text)))"

definition splitOnUnescapedSeparator :: "jstring \<Rightarrow> cu \<Rightarrow> jstring list" where
  "splitOnUnescapedSeparator text separator =
     (if indexOf text [backslash, separator] > 0
      then reverseSplit text (unescapedSeparatorRegex separator)
      else splitString separator text)"

section \<open>Key builder and parser\<close>

text \<open>
  \<^verbatim>\<open>buildKey\<close> on an array of components; called with the components as separate
  arguments it first collects them into an array and goes on in the same way.
\<close>

definition buildKey :: "jstring list \<Rightarrow> jstring" where
  "buildKey components = joinWith keySeparator (map escape components)"

text \<open>
  An optional argument is \<open>None\<close> when the caller leaves it out.
  \<^verbatim>\<open>x || ""\<close> is \<^verbatim>\<open>""\<close> for a missing argument and for the empty string,
  and \<open>x\<close> itself for every other string.
\<close>

definition orEmpty :: "jstring option \<Rightarrow> jstring" where
  "orEmpty x = (case x of None \<Rightarrow> [] | Some s \<Rightarrow> if s = [] then [] else s)"

definition buildSearchKey ::
  "jstring \<Rightarrow> jstring \<Rightarrow> jstring \<Rightarrow> jstring option \<Rightarrow> jstring option \<Rightarrow> jstring" where
  "buildSearchKey pre field val filt filterKey =
     joinWith keySeparator [pre, field, val, orEmpty filt, orEmpty filterKey]"

definition breakKey :: "jstring \<Rightarrow> jstring list" where
  "breakKey key = map unescape (splitOnUnescapedSeparator key keySeparator)"

text \<open>
  \<^verbatim>\<open>parseKey\<close> and \<^verbatim>\<open>parseSearchKey\<close> assign to \<^verbatim>\<open>parts\<close> without
  declaring it, so \<^verbatim>\<open>parts\<close> is a variable of the global object.  The globals are
  passed in and returned; \<open>None\<close> stands for a variable that was never assigned.
  A read of an array beyond its end gives \<^verbatim>\<open>undefined\<close>, here \<open>None\<close>.
\<close>

record globals =
  parts :: "jstring list option"

record parsedKey =
  pk_prefix :: "jstring option"
  pk_parts :: "jstring list"

record parsedSearchKey =
  sk_prefix :: "jstring option"
  sk_field :: "jstring option"
  sk_value :: "jstring option"
  sk_filter :: "jstring option"
  sk_filterKey :: "jstring option"
  sk_trailing :: "jstring list"

definition element :: "jstring list \<Rightarrow> nat \<Rightarrow> jstring option" where
  "element xs i = (if i < length xs then Some (xs ! i) else None)"

text \<open>
  \<^verbatim>\<open>parts.shift()\<close> removes the first element of the array that the global
  variable holds, so the variable (and the \<^verbatim>\<open>parts\<close> field of the result, the
  same array) ends up with the remaining elements.
\<close>

definition parseKey :: "jstring \<Rightarrow> globals \<Rightarrow> parsedKey \<times> globals" where
  "parseKey key g =
     (let g1 = g\<lparr>parts := Some (breakKey key)\<rparr>;
          arr = (case parts g1 of None \<Rightarrow> [] | Some a \<Rightarrow> a);
          shifted = element arr 0;
          g2 = g1\<lparr>parts := Some (tl arr)\<rparr>
      in (\<lparr>pk_prefix = shifted, pk_parts = tl arr\<rparr>, g2))"

definition parseSearchKey :: "jstring \<Rightarrow> globals \<Rightarrow> parsedSearchKey \<times> globals" where
  "parseSearchKey key g =
     (let g1 = g\<lparr>parts := Some (breakKey key)\<rparr>;
          arr = (case parts g1 of None \<Rightarrow> [] | Some a \<Rightarrow> a)
      in (\<lparr>sk_prefix = element arr 0, sk_field = element arr 1, sk_value = element arr 2,
           sk_filter = element arr 3, sk_filterKey = element arr 4,
           sk_trailing = drop 5 arr\<rparr>, g1))"

definition keyHasPrefix :: "jstring \<Rightarrow> jstring \<Rightarrow> bool" where
  "keyHasPrefix key pre = (take (length pre + 1) key = pre @ [keySeparator])"

section \<open>Tokenizer\<close>

text \<open>
  An element of the array that \<^verbatim>\<open>split\<close> returns is a string or, for a capture
  group of the separator that took no part in the match, \<^verbatim>\<open>undefined\<close>, here
  \<open>None\<close>.
\<close>

type_synonym token = "jstring option"

text \<open>
  A separator pattern of the caller's is any regular expression.  It is represented by
  what \<^verbatim>\<open>split\<close> asks of it: tried at index \<open>q\<close> of the subject \<open>S\<close> it fails, or
  matches a number of characters from \<open>q\<close> on and yields the values of its capture
  groups.
\<close>

type_synonym patternMatcher = "jstring \<Rightarrow> nat \<Rightarrow> (nat \<times> token list) option"

text \<open>
  The loop of \<^verbatim>\<open>split\<close> on the indices \<open>p\<close> (end of the last separator) and \<open>q\<close>
  (current index), for a non-empty subject: where the pattern fails at \<open>q\<close>, or its match
  ends at \<open>p\<close>, \<open>q\<close> advances; otherwise the piece from \<open>p\<close> to \<open>q\<close> is emitted,
  followed by the captures of the match, and both indices move to the end \<open>e\<close> of the
  match.  At the end of the subject the piece from \<open>p\<close> on is emitted.
\<close>

function patternSplitLoop :: "patternMatcher \<Rightarrow> jstring \<Rightarrow> nat \<Rightarrow> nat \<Rightarrow> token list" where
  "patternSplitLoop m S p q =
     (if q < length S then
        (case m S q of
           None \<Rightarrow> patternSplitLoop m S p (q + 1)
         | Some (k, captures) \<Rightarrow>
             (let e = min (q + k) (length S) in
              if e = p then patternSplitLoop m S p (q + 1)
              else Some (take (q - p) (drop p S)) # captures @ patternSplitLoop m S e e))
      else [Some (drop p S)])"
  by pat_completeness auto
termination
  by (relation "measure (\<lambda>(m, S, p, q). 2 * (length S - q) + (if p = q then 0 else 1))")
    (auto simp: min_def split: if_splits)

declare patternSplitLoop.simps [simp del]

definition patternSplit :: "patternMatcher \<Rightarrow> jstring \<Rightarrow> token list" where
  "patternSplit m S =
     (if S = [] then (case m [] 0 of None \<Rightarrow> [Some []] | Some z \<Rightarrow> [])
      else patternSplitLoop m S 0 0)"

text \<open>
  A pattern without capture groups whose match at an index depends only on the subject
  from that index on, as a pattern of the caller's.
\<close>

definition captureFree :: "matcher \<Rightarrow> patternMatcher" where
  "captureFree m S q = map_option (\<lambda>k. (k, [])) (m (drop q S))"

text \<open>
  The \<^verbatim>\<open>separator\<close> argument of \<^verbatim>\<open>tokenize\<close>: left out, \<^verbatim>\<open>null\<close>,
  \<^verbatim>\<open>false\<close>, or a pattern.
\<close>

datatype separatorArg = Undefined | Null | FalseValue | Pattern patternMatcher


text \<open>The pattern \<^verbatim>\<open>[...]+\<close>: one or more characters of a class, taken greedily.\<close>

definition classRun :: "(cu \<Rightarrow> bool) \<Rightarrow> matcher" where
  "classRun inClass xs =
     (let n = length (takeWhile inClass xs) in if n = 0 then None else Some n)"

text \<open>
  \<^verbatim>\<open>defaultWordSeparator\<close> is \<^verbatim>\<open>/[\|' \.,\-|(\n)]+/\<close>: one or more
  characters of the class, which holds the bar, the apostrophe, the space, the full stop,
  the comma, the hyphen, both parentheses and the line feed.
\<close>

definition wordSeparatorChar :: "cu \<Rightarrow> bool" where
  "wordSeparatorChar c \<longleftrightarrow> c \<in> set [0x7C, 0x27, 0x20, 0x2E, 0x2C, 0x2D, 0x28, 0x0A, 0x29]"

definition defaultWordSeparator :: matcher where
  "defaultWordSeparator = classRun wordSeparatorChar"

text \<open>\<^verbatim>\<open>new RegExp("")\<close> matches the empty string at every index.\<close>

definition emptyPattern :: matcher where
  "emptyPattern xs = Some 0"

definition tokenize :: "jstring \<Rightarrow> bool \<Rightarrow> separatorArg \<Rightarrow> token list" where
  "tokenize text isEncoded separator =
     (if isEncoded then map Some (splitOnUnescapedSeparator text tokenSeparator)
      else patternSplit
             (case separator of
                Undefined \<Rightarrow> captureFree defaultWordSeparator
              | Null \<Rightarrow> captureFree emptyPattern
              | FalseValue \<Rightarrow> captureFree emptyPattern
              | Pattern m \<Rightarrow> m)
             text)"



section \<open>Notions used to state and prove the properties\<close>

text \<open>The length of the run of backslashes at the start of a string.\<close>

definition backslashRun :: "jstring \<Rightarrow> nat" where
  "backslashRun xs = length (takeWhile (\<lambda>c. c = backslash) xs)"

text \<open>
  The length of the run of backslashes that ends just before index \<open>i\<close> of \<open>s\<close>.  The
  character at index \<open>i\<close> is escaped when this run is odd and unescaped when it is even.
\<close>

definition backslashRunBefore :: "jstring \<Rightarrow> nat \<Rightarrow> nat" where
  "backslashRunBefore s i = backslashRun (rev (take i s))"

text \<open>
  On a reversed string: every occurrence of \<open>sep\<close> is followed by an odd run of
  backslashes.
\<close>

fun oddRunAfter :: "cu \<Rightarrow> jstring \<Rightarrow> bool" where
  "oddRunAfter sep [] = True"
| "oddRunAfter sep (c # r) = ((c = sep \<longrightarrow> odd (backslashRun r)) \<and> oddRunAfter sep r)"

text \<open>What \<open>escape\<close> makes of one character.\<close>

definition escapeChar :: "cu \<Rightarrow> jstring" where
  "escapeChar c =
     (if c = backslash then [backslash, backslash]
      else if c = tokenSeparator then [backslash, tokenSeparator]
      else if c = keySeparator then [backslash, keySeparator]
      else [c])"

text \<open>
  The two intermediate strings of \<open>unescape (escape s)\<close>: after the token separators
  have been unescaped, and after the key separators have been unescaped as well.
\<close>

fun escapedKeyAndBackslash :: "jstring \<Rightarrow> jstring" where
  "escapedKeyAndBackslash [] = []"
| "escapedKeyAndBackslash (c # s) =
     (if c = backslash then [backslash, backslash]
      else if c = keySeparator then [backslash, keySeparator]
      else [c]) @ escapedKeyAndBackslash s"

fun escapedBackslash :: "jstring \<Rightarrow> jstring" where
  "escapedBackslash [] = []"
| "escapedBackslash (c # s) =
     (if c = backslash then [backslash, backslash] else [c]) @ escapedBackslash s"


section \<open>The reserved characters are distinct\<close>

lemma seps_distinct:
  "backslash \<noteq> tokenSeparator" "backslash \<noteq> keySeparator"
  "tokenSeparator \<noteq> keySeparator" "tokenSeparator \<noteq> backslash"
  "keySeparator \<noteq> backslash" "keySeparator \<noteq> tokenSeparator"
  by (simp_all add: backslash_def tokenSeparator_def keySeparator_def)

lemmas char_defs = backslash_def tokenSeparator_def keySeparator_def

section \<open>Escaping, character by character\<close>

lemma escape_Nil: "escape [] = []"
  by (simp add: escape_def)

lemma escape_Cons: "escape (c # s) = escapeChar c @ escape s"
  by (simp add: escape_def escapeChar_def seps_distinct)

lemma escape_append: "escape (s @ t) = escape s @ escape t"
  by (induction s) (simp_all add: escape_Nil escape_Cons)

lemma escape_snoc: "escape (s @ [c]) = escape s @ escapeChar c"
  by (simp add: escape_append escape_Cons escape_Nil)

lemma escape_hd: "escape s = x # xs \<Longrightarrow> x \<noteq> tokenSeparator \<and> x \<noteq> keySeparator"
  by (cases s) (auto simp: escape_Nil escape_Cons escapeChar_def seps_distinct split: if_splits)

section \<open>The three passes of unescape\<close>

lemma replacePair_skip_fst:
  "x \<noteq> a \<Longrightarrow> replacePair a b r (x # xs) = x # replacePair a b r xs"
  by (cases xs) simp_all

lemma replacePair_skip_snd:
  "(\<And>ys. xs \<noteq> b # ys) \<Longrightarrow> replacePair a b r (x # xs) = x # replacePair a b r xs"
  by (cases xs) auto

lemma escapedKeyAndBackslash_hd: "escapedKeyAndBackslash s \<noteq> keySeparator # ys"
  by (cases s) (auto simp: seps_distinct)

lemma pass_token:
  "replacePair backslash tokenSeparator [tokenSeparator] (escape s) = escapedKeyAndBackslash s"
proof (induction s)
  case Nil
  show ?case by (simp add: escape_Nil)
next
  case (Cons c s)
  have no_token: "\<And>ys. escape s \<noteq> tokenSeparator # ys"
    using escape_hd by blast
  show ?case
    using Cons.IH no_token
    by (simp add: escape_Cons escapeChar_def seps_distinct replacePair_skip_fst
        replacePair_skip_snd)
qed

lemma pass_key:
  "replacePair backslash keySeparator [keySeparator] (escapedKeyAndBackslash s) =
   escapedBackslash s"
proof (induction s)
  case Nil
  show ?case by simp
next
  case (Cons c s)
  show ?case
    using Cons.IH escapedKeyAndBackslash_hd[of s]
    by (simp add: seps_distinct replacePair_skip_fst replacePair_skip_snd)
qed

lemma pass_backslash: "replacePair backslash backslash [backslash] (escapedBackslash s) = s"
  by (induction s) (simp_all add: replacePair_skip_fst)

lemma unescape_escape_id: "unescape (escape s) = s"
  by (simp add: unescape_def pass_token pass_key pass_backslash)

section \<open>Runs of backslashes and the pattern of the split engine\<close>

lemma backslashRun_simps [simp]:
  "backslashRun [] = 0"
  "backslashRun (x # xs) = (if x = backslash then Suc (backslashRun xs) else 0)"
  by (simp_all add: backslashRun_def)

lemma notBackslashAhead_iff: "notBackslashAhead xs \<longleftrightarrow> backslashRun xs = 0"
  by (cases xs) simp_all

lemma backslashRun_append:
  "notBackslashAhead tail \<Longrightarrow> backslashRun (r @ tail) = backslashRun r"
  by (induction r) (simp_all add: notBackslashAhead_iff)

lemma backslashPairs_run: "backslashPairs xs = backslashRun xs div 2"
  by (induction xs rule: backslashPairs.induct) simp_all

lemma ahead_in_run: "k < backslashRun xs \<Longrightarrow> \<not> notBackslashAhead (drop k xs)"
proof (induction xs arbitrary: k)
  case Nil
  then show ?case by simp
next
  case (Cons x xs)
  then show ?case by (cases k) (simp_all split: if_splits)
qed

lemma ahead_after_run: "notBackslashAhead (drop (backslashRun xs) xs)"
  by (induction xs) simp_all

lemma backtrackPairs_fail: "2 * n < backslashRun xs \<Longrightarrow> backtrackPairs n xs = None"
proof (induction n)
  case 0
  then show ?case using ahead_in_run[of 0 xs] by simp
next
  case (Suc n)
  then show ?case using ahead_in_run[of "2 * Suc n" xs] by simp
qed

lemma backtrackPairs_hit: "2 * n = backslashRun xs \<Longrightarrow> backtrackPairs n xs = Some (2 * n)"
  using ahead_after_run[of xs] by (cases n) simp_all

text \<open>
  With backtracking, the pattern matches at a separator exactly when the run of backslashes
  behind it is even, and the match then takes the separator and the whole run.
\<close>

lemma backtrackPairs_greedy:
  "backtrackPairs (backslashPairs xs) xs =
     (if even (backslashRun xs) then Some (backslashRun xs) else None)"
proof (cases "even (backslashRun xs)")
  case True
  then have "2 * (backslashRun xs div 2) = backslashRun xs" by simp
  from backtrackPairs_hit[OF this] True show ?thesis
    by (simp add: backslashPairs_run)
next
  case False
  then have "2 * (backslashRun xs div 2) < backslashRun xs"
    by presburger
  from backtrackPairs_fail[OF this] False show ?thesis
    by (simp add: backslashPairs_run)
qed

lemma regex_Nil: "unescapedSeparatorRegex sep [] = None"
  by (simp add: unescapedSeparatorRegex_def)

lemma regex_Cons:
  "unescapedSeparatorRegex sep (c # rest) =
     (if c = sep \<and> even (backslashRun rest) then Some (Suc (backslashRun rest)) else None)"
  by (simp add: unescapedSeparatorRegex_def backtrackPairs_greedy)

section \<open>Splitting a joined string\<close>

lemma splitLoop_regex_fragment:
  "oddRunAfter sep r \<Longrightarrow> notBackslashAhead tail \<Longrightarrow>
   splitLoop (unescapedSeparatorRegex sep) acc (r @ tail) =
   splitLoop (unescapedSeparatorRegex sep) (rev r @ acc) tail"
  by (induction r arbitrary: acc) (auto simp: regex_Cons backslashRun_append)

lemma splitLoop_regex_joiner:
  "notBackslashAhead tail \<Longrightarrow>
   splitLoop (unescapedSeparatorRegex sep) acc (sep # tail) =
   rev acc # splitLoop (unescapedSeparatorRegex sep) [] tail"
  by (simp add: regex_Cons notBackslashAhead_iff)

lemma ahead_joinWith:
  "sep \<noteq> backslash \<Longrightarrow> notBackslashAhead r \<Longrightarrow> notBackslashAhead (joinWith sep (r # rs))"
  by (cases rs; cases r) simp_all

lemma splitLoop_regex_join:
  "sep \<noteq> backslash \<Longrightarrow> \<forall>r \<in> set (r0 # rs). oddRunAfter sep r \<Longrightarrow>
   \<forall>r \<in> set rs. notBackslashAhead r \<Longrightarrow>
   splitLoop (unescapedSeparatorRegex sep) acc (joinWith sep (r0 # rs)) = (rev acc @ r0) # rs"
proof (induction rs arbitrary: r0 acc)
  case Nil
  then show ?case
    using splitLoop_regex_fragment[where sep=sep and r=r0 and tail="[]" and acc=acc] by simp
next
  case (Cons r1 rs)
  have a: "notBackslashAhead (sep # joinWith sep (r1 # rs))"
    using Cons.prems(1) by simp
  have b: "notBackslashAhead (joinWith sep (r1 # rs))"
    using Cons.prems ahead_joinWith by simp
  have "splitLoop (unescapedSeparatorRegex sep) acc (joinWith sep (r0 # r1 # rs)) =
        splitLoop (unescapedSeparatorRegex sep) (rev r0 @ acc) (sep # joinWith sep (r1 # rs))"
    using splitLoop_regex_fragment[OF _ a, where r=r0 and acc=acc] Cons.prems(2) by simp
  also have "\<dots> =
        (rev acc @ r0) # splitLoop (unescapedSeparatorRegex sep) [] (joinWith sep (r1 # rs))"
    using splitLoop_regex_joiner[OF b] by simp
  also have "splitLoop (unescapedSeparatorRegex sep) [] (joinWith sep (r1 # rs)) = r1 # rs"
    using Cons.IH[of r1 "[]"] Cons.prems by simp
  finally show ?case .
qed

lemma matchChar_simps:
  "matchChar sep [] = None"
  "matchChar sep (c # rest) = (if c = sep then Some 1 else None)"
  by (simp_all add: matchChar_def)

lemma splitLoop_char_fragment:
  "sep \<notin> set r \<Longrightarrow>
   splitLoop (matchChar sep) acc (r @ tail) = splitLoop (matchChar sep) (rev r @ acc) tail"
  by (induction r arbitrary: acc) (auto simp: matchChar_simps)

lemma splitLoop_char_join:
  "\<forall>r \<in> set (r0 # rs). sep \<notin> set r \<Longrightarrow>
   splitLoop (matchChar sep) acc (joinWith sep (r0 # rs)) = (rev acc @ r0) # rs"
proof (induction rs arbitrary: r0 acc)
  case Nil
  then show ?case
    using splitLoop_char_fragment[where sep=sep and r=r0 and tail="[]" and acc=acc] by simp
next
  case (Cons r1 rs)
  have "splitLoop (matchChar sep) acc (joinWith sep (r0 # r1 # rs)) =
        splitLoop (matchChar sep) (rev r0 @ acc) (sep # joinWith sep (r1 # rs))"
    using splitLoop_char_fragment[where sep=sep and r=r0 and acc=acc] Cons.prems by simp
  also have "\<dots> = (rev acc @ r0) # splitLoop (matchChar sep) [] (joinWith sep (r1 # rs))"
    by (simp add: matchChar_simps)
  also have "splitLoop (matchChar sep) [] (joinWith sep (r1 # rs)) = r1 # rs"
    using Cons.IH[of r1 "[]"] Cons.prems by simp
  finally show ?case .
qed

lemma regexSplit_no_empty_match: "m [] = None \<Longrightarrow> regexSplit m text = splitLoop m [] text"
  by (simp add: regexSplit_def)

lemma joinWith_snoc:
  "xs \<noteq> [] \<Longrightarrow> joinWith sep (xs @ [y]) = joinWith sep xs @ sep # y"
  by (induction sep xs rule: joinWith.induct) simp_all

lemma rev_joinWith: "rev (joinWith sep xs) = joinWith sep (rev (map rev xs))"
proof (induction sep xs rule: joinWith.induct)
  case (3 sep x y ys)
  have "rev (map rev (y # ys)) \<noteq> []" by simp
  from joinWith_snoc[OF this, of sep "rev x"] 3 show ?case by simp
qed simp_all

lemma joinWith_contains: "e \<in> set es \<Longrightarrow> \<exists>p q. joinWith sep es = p @ e @ q"
proof (induction sep es rule: joinWith.induct)
  case (1 sep)
  then show ?case by simp
next
  case (2 sep x)
  then show ?case by (auto intro: exI[of _ "[]"])
next
  case (3 sep x y ys)
  show ?case
  proof (cases "e = x")
    case True
    then show ?thesis by (auto intro: exI[of _ "[]"])
  next
    case False
    with 3 obtain p q where "joinWith sep (y # ys) = p @ e @ q" by auto
    then have "joinWith sep (x # y # ys) = (x @ sep # p) @ e @ q" by simp
    then show ?thesis by blast
  qed
qed

lemma indexOf_occurs: "0 \<le> indexOf (u @ a # b # v) [a, b]"
  by (induction u) (simp_all add: Let_def)

lemma indexOf_zero: "indexOf t p = 0 \<longleftrightarrow> isPrefixOf p t"
proof (cases t)
  case Nil
  then show ?thesis by (cases p) simp_all
next
  case (Cons x xs)
  then show ?thesis by (simp add: Let_def)
qed

lemma isPrefixOf_take: "isPrefixOf p t \<longleftrightarrow> take (length p) t = p"
  by (induction p t rule: isPrefixOf.induct) auto

lemma oddRunAfter_split: "oddRunAfter sep (a @ sep # b) \<Longrightarrow> odd (backslashRun b)"
  by (induction a) simp_all

lemma separator_preceded:
  assumes "oddRunAfter sep (rev e)" and "sep \<in> set e"
  shows "\<exists>u v. e = u @ backslash # sep # v"
proof -
  from assms(2) obtain a b where ab: "e = a @ sep # b"
    by (auto simp: in_set_conv_decomp)
  then have "rev e = rev b @ sep # rev a" by simp
  with assms(1) have "odd (backslashRun (rev a))"
    using oddRunAfter_split by metis
  then obtain a' where "rev a = backslash # a'"
    by (cases "rev a") (auto split: if_splits)
  then have "a = rev a' @ [backslash]"
    by (metis rev.simps(2) rev_rev_ident)
  with ab show ?thesis by auto
qed

lemma joined_start:
  assumes "sep \<noteq> backslash" and "\<not> isPrefixOf [backslash, sep] e0"
    and "es \<noteq> [] \<Longrightarrow> notBackslashAhead (rev e0)"
  shows "\<not> isPrefixOf [backslash, sep] (joinWith sep (e0 # es))"
proof (cases es)
  case Nil
  then show ?thesis using assms(2) by simp
next
  case (Cons e1 es')
  show ?thesis
  proof (cases e0)
    case Nil
    then show ?thesis using assms(1) Cons by simp
  next
    case outer: (Cons x xs)
    show ?thesis
    proof (cases xs)
      case Nil
      then show ?thesis using assms(3) Cons outer by simp
    next
      case inner: (Cons y ys)
      then show ?thesis using assms(2) Cons outer by simp
    qed
  qed
qed

text \<open>
  Joining pieces and splitting the result gives the pieces back, on either path of
  \<open>splitOnUnescapedSeparator\<close>, when every separator inside a piece is escaped, no piece
  but the last ends in a backslash, and the first piece does not start with an escaped
  separator.
\<close>

lemma split_join_pieces:
  assumes sepbs: "sep \<noteq> backslash"
    and safe: "\<forall>e \<in> set (e0 # es). oddRunAfter sep (rev e)"
    and inner: "\<forall>e \<in> set (butlast (e0 # es)). notBackslashAhead (rev e)"
    and first: "\<not> isPrefixOf [backslash, sep] e0"
  shows "splitOnUnescapedSeparator (joinWith sep (e0 # es)) sep = e0 # es"
proof -
  let ?key = "joinWith sep (e0 # es)"
  have "es \<noteq> [] \<Longrightarrow> notBackslashAhead (rev e0)"
    using inner by simp
  then have nostart: "indexOf ?key [backslash, sep] \<noteq> 0"
    using joined_start[OF sepbs first] by (simp add: indexOf_zero)
  show ?thesis
  proof (cases "indexOf ?key [backslash, sep] > 0")
    case True
    obtain B l where Bl: "e0 # es = B @ [l]"
      by (cases "e0 # es" rule: rev_cases) auto
    have revkey: "rev ?key = joinWith sep (rev l # rev (map rev B))"
      by (simp add: rev_joinWith Bl)
    have s: "\<forall>r \<in> set (rev l # rev (map rev B)). oddRunAfter sep r"
      using safe Bl by auto
    have a: "\<forall>r \<in> set (rev (map rev B)). notBackslashAhead r"
      using inner Bl by auto
    have "regexSplit (unescapedSeparatorRegex sep) (rev ?key) = rev l # rev (map rev B)"
      using splitLoop_regex_join[OF sepbs s a, of "[]"]
      by (simp add: regexSplit_no_empty_match regex_Nil revkey)
    then have "reverseSplit ?key (unescapedSeparatorRegex sep) = e0 # es"
      by (simp add: reverseSplit_def Bl rev_map)
    with True show ?thesis by (simp add: splitOnUnescapedSeparator_def)
  next
    case False
    have nosep: "\<forall>e \<in> set (e0 # es). sep \<notin> set e"
    proof (rule ballI, rule notI)
      fix e assume e: "e \<in> set (e0 # es)" and mem: "sep \<in> set e"
      from safe e have "oddRunAfter sep (rev e)" by blast
      from separator_preceded[OF this mem]
      obtain u v where "e = u @ backslash # sep # v" by auto
      moreover from joinWith_contains[OF e] obtain p q where "?key = p @ e @ q" by blast
      ultimately have "?key = (p @ u) @ backslash # sep # (v @ q)" by simp
      then have "0 \<le> indexOf ?key [backslash, sep]"
        using indexOf_occurs by metis
      with False nostart show False by simp
    qed
    have "splitString sep ?key = e0 # es"
      using splitLoop_char_join[OF nosep, of "[]"] by (simp add: splitString_def)
    with False show ?thesis by (simp add: splitOnUnescapedSeparator_def)
  qed
qed

section \<open>Escaped strings as pieces\<close>

lemma rev_escape_safe:
  assumes "sep = tokenSeparator \<or> sep = keySeparator"
  shows "oddRunAfter sep (rev (escape s)) \<and> even (backslashRun (rev (escape s)))"
proof (induction s rule: rev_induct)
  case Nil
  show ?case by (simp add: escape_Nil)
next
  case (snoc c s)
  then show ?case
    using assms by (auto simp: escape_snoc escapeChar_def seps_distinct)
qed

lemma rev_escape_ahead:
  "s = [] \<or> last s \<noteq> backslash \<Longrightarrow> notBackslashAhead (rev (escape s))"
  by (cases s rule: rev_cases) (auto simp: escape_Nil escape_snoc escapeChar_def seps_distinct)

lemma escape_start:
  assumes "sep = tokenSeparator \<or> sep = keySeparator" and "\<not> isPrefixOf [sep] c"
  shows "\<not> isPrefixOf [backslash, sep] (escape c)"
  using assms by (cases c) (auto simp: escape_Nil escape_Cons escapeChar_def seps_distinct)

lemma split_join_escaped:
  assumes sep: "sep = tokenSeparator \<or> sep = keySeparator"
    and ne: "C \<noteq> []"
    and first: "\<not> isPrefixOf [sep] (hd C)"
    and inner: "\<forall>c \<in> set (butlast C). c = [] \<or> last c \<noteq> backslash"
  shows "splitOnUnescapedSeparator (joinWith sep (map escape C)) sep = map escape C"
proof -
  from ne obtain c0 C' where C: "C = c0 # C'" by (cases C) auto
  from sep have sepbs: "sep \<noteq> backslash" by (auto simp: seps_distinct)
  have s: "\<forall>e \<in> set (escape c0 # map escape C'). oddRunAfter sep (rev e)"
    using rev_escape_safe[OF sep] by auto
  have "butlast (escape c0 # map escape C') = map escape (butlast C)"
    using C by (simp add: map_butlast)
  then have i: "\<forall>e \<in> set (butlast (escape c0 # map escape C')). notBackslashAhead (rev e)"
    using inner rev_escape_ahead by auto
  have f: "\<not> isPrefixOf [backslash, sep] (escape c0)"
    using escape_start[OF sep] first C by simp
  from split_join_pieces[OF sepbs s i f] C show ?thesis by simp
qed

section \<open>The two loops of split agree\<close>





section \<open>Splitting an escaped text at runs of a character class\<close>















section \<open>Properties of the escaper\<close>

text \<open>
  C2.  For every string \<open>s\<close>, also one that already contains the escape character,
  \<open>unescape (escape s) = s\<close>.  Here \<open>escape\<close> doubles the backslashes first and then
  prefixes the token separator and the key separator, and \<open>unescape\<close> removes the
  separator escapes first and collapses the doubled backslashes last, as the two
  definitions above have it.
\<close>

theorem unescape_escape_roundtrip: "unescape (escape s) = s"
  by (rule unescape_escape_id)

text \<open>
  C6.  For every string \<open>s\<close>, every occurrence of the token separator or of the key
  separator in \<open>escape s\<close> is preceded by a run of backslashes of odd length: the output
  of \<open>escape\<close> holds no unescaped separator.
\<close>

theorem escape_separators_escaped:
  assumes "i < length (escape s)"
    and "escape s ! i = tokenSeparator \<or> escape s ! i = keySeparator"
  shows "odd (backslashRunBefore (escape s) i)"
proof -
  let ?e = "escape s"
  have "?e = take i ?e @ ?e ! i # drop (Suc i) ?e"
    using assms(1) by (rule id_take_nth_drop)
  then have "rev ?e = rev (drop (Suc i) ?e) @ ?e ! i # rev (take i ?e)"
    by (metis rev.simps(2) rev_append append_Cons append_Nil append_assoc)
  moreover have "oddRunAfter (?e ! i) (rev ?e)"
    using rev_escape_safe[OF assms(2)] by simp
  ultimately show ?thesis
    using oddRunAfter_split by (metis backslashRunBefore_def)
qed

theorem escape_separators_escaped_witness:
  "1 < length (escape [keySeparator]) \<and>
   (escape [keySeparator] ! 1 = tokenSeparator \<or> escape [keySeparator] ! 1 = keySeparator) \<and>
   odd (backslashRunBefore (escape [keySeparator]) 1)"
proof -
  have h1: "1 < length (escape [keySeparator])"
    by (simp add: escape_def char_defs)
  have h2: "escape [keySeparator] ! 1 = tokenSeparator \<or> escape [keySeparator] ! 1 = keySeparator"
    by (simp add: escape_def char_defs)
  from h1 h2 escape_separators_escaped[OF h1 h2] show ?thesis by blast
qed

section \<open>Properties of the split engine\<close>

text \<open>
  C3.  \<open>splitOnUnescapedSeparator\<close> is to split at the occurrences of the separator that
  follow an even run of backslashes and at no other.  It fails to in two ways.  The test
  \<^verbatim>\<open>text.indexOf('\\' + separator) > 0\<close> is false when the text starts with an
  escaped separator, so the text \<^verbatim>\<open>\Kx\<close> (\<open>K\<close> the key separator) takes the plain
  split and is cut at its escaped separator, where the reverse split leaves it whole.
  And the pattern of the reverse split takes the even run of backslashes into the match,
  so \<^verbatim>\<open>a\\Kb\<close> is cut into \<^verbatim>\<open>a\<close> and \<^verbatim>\<open>b\<close>: the two backslashes are lost.
\<close>

theorem splitOnUnescapedSeparator_failures:
  "splitOnUnescapedSeparator [backslash, keySeparator, 0x78] keySeparator =
     [[backslash], [0x78]] \<and>
   odd (backslashRunBefore [backslash, keySeparator, 0x78] 1) \<and>
   reverseSplit [backslash, keySeparator, 0x78] (unescapedSeparatorRegex keySeparator) =
     [[backslash, keySeparator, 0x78]] \<and>
   splitOnUnescapedSeparator [0x61, backslash, backslash, keySeparator, 0x62] keySeparator =
     [[0x61], [0x62]]"
  by code_simp

section \<open>Properties of the key builder and parser\<close>

text \<open>
  C1 as stated, \<open>breakKey (buildKey C) = C\<close> for every sequence \<open>C\<close>, is false.  The
  empty sequence and the sequence holding one empty string are both built into the empty
  key, which is broken into the latter.  A first component that starts with the key
  separator and a component before the last that ends in a backslash are not recovered
  either (the two failures of the split engine shown for C3).
\<close>

theorem breakKey_buildKey_counterexample:
  "breakKey (buildKey []) \<noteq> [] \<and>
   breakKey (buildKey [[keySeparator]]) \<noteq> [[keySeparator]] \<and>
   breakKey (buildKey [[backslash], [0x78]]) \<noteq> [[backslash], [0x78]]"
  by code_simp

text \<open>
  C1, amended.  For every non-empty sequence \<open>C\<close> of strings whose first component does
  not start with the key separator and in which no component but the last ends in a
  backslash, \<open>breakKey (buildKey C) = C\<close>.  The components may otherwise contain the
  backslash, the token separator and the key separator anywhere.
\<close>

theorem breakKey_buildKey_roundtrip:
  assumes "C \<noteq> []"
    and "\<not> isPrefixOf [keySeparator] (hd C)"
    and "\<forall>c \<in> set (butlast C). c = [] \<or> last c \<noteq> backslash"
  shows "breakKey (buildKey C) = C"
  using split_join_escaped[of keySeparator C] assms
  by (simp add: breakKey_def buildKey_def unescape_escape_id comp_def)

theorem breakKey_buildKey_roundtrip_witness:
  "[[0x61, keySeparator], [backslash]] \<noteq> [] \<and>
   \<not> isPrefixOf [keySeparator] (hd [[0x61, keySeparator], [backslash]]) \<and>
   list_all (\<lambda>c. c = [] \<or> last c \<noteq> backslash) (butlast [[0x61, keySeparator], [backslash]]) \<and>
   breakKey (buildKey [[0x61, keySeparator], [backslash]]) = [[0x61, keySeparator], [backslash]]"
proof -
  have h1: "[[0x61, keySeparator], [backslash]] \<noteq> []" by simp
  have h2: "\<not> isPrefixOf [keySeparator] (hd [[0x61, keySeparator], [backslash]])"
    by (simp add: char_defs)
  have h3: "\<forall>c \<in> set (butlast [[0x61, keySeparator], [backslash]]).
              c = [] \<or> last c \<noteq> backslash"
    by (simp add: char_defs)
  have r: "breakKey (buildKey [[0x61, keySeparator], [backslash]]) =
           [[0x61, keySeparator], [backslash]]"
    by (rule breakKey_buildKey_roundtrip[OF h1 h2 h3])
  from h3 have l: "list_all (\<lambda>c. c = [] \<or> last c \<noteq> backslash)
                     (butlast [[0x61, keySeparator], [backslash]])"
    by (simp only: list_all_iff)
  from h1 h2 l r show ?thesis by blast
qed

text \<open>
  C4.  \<open>buildSearchKey\<close> is to return \<open>buildKey\<close> of its five components, each of them
  escaped.  It joins the components as they are: for the prefix \<^verbatim>\<open>TF\<close>, the field
  \<^verbatim>\<open>aKb\<close> (\<open>K\<close> the key separator), the value \<^verbatim>\<open>v\<close> and no filter, the key
  separator inside the field is not escaped, and the result differs from that of
  \<open>buildKey\<close>.
\<close>

theorem buildSearchKey_unescaped:
  "buildSearchKey [0x54, 0x46] [0x61, keySeparator, 0x62] [0x76] None None =
     [0x54, 0x46, keySeparator, 0x61, keySeparator, 0x62, keySeparator, 0x76,
      keySeparator, keySeparator] \<and>
   buildKey [[0x54, 0x46], [0x61, keySeparator, 0x62], [0x76], orEmpty None, orEmpty None] =
     [0x54, 0x46, keySeparator, 0x61, backslash, keySeparator, 0x62, keySeparator, 0x76,
      keySeparator, keySeparator] \<and>
   buildSearchKey [0x54, 0x46] [0x61, keySeparator, 0x62] [0x76] None None \<noteq>
     buildKey [[0x54, 0x46], [0x61, keySeparator, 0x62], [0x76], orEmpty None, orEmpty None]"
  by code_simp

text \<open>
  C5.  \<open>parseSearchKey\<close> of a key built by \<open>buildSearchKey\<close> is to return the five
  values that went in, with nothing trailing.  For the prefix \<^verbatim>\<open>TF\<close>, the field
  \<^verbatim>\<open>aKb\<close>, the value \<^verbatim>\<open>v\<close> and no filter it returns the field \<^verbatim>\<open>a\<close>, the
  value \<^verbatim>\<open>b\<close>, the filter \<^verbatim>\<open>v\<close> and one trailing empty string.
\<close>

theorem parseSearchKey_buildSearchKey_shifted:
  "fst (parseSearchKey
          (buildSearchKey [0x54, 0x46] [0x61, keySeparator, 0x62] [0x76] None None)
          \<lparr>parts = None\<rparr>) =
     \<lparr>sk_prefix = Some [0x54, 0x46], sk_field = Some [0x61], sk_value = Some [0x62],
      sk_filter = Some [0x76], sk_filterKey = Some [], sk_trailing = [[]]\<rparr> \<and>
   fst (parseSearchKey
          (buildSearchKey [0x54, 0x46] [0x61, keySeparator, 0x62] [0x76] None None)
          \<lparr>parts = None\<rparr>) \<noteq>
     \<lparr>sk_prefix = Some [0x54, 0x46], sk_field = Some [0x61, keySeparator, 0x62],
      sk_value = Some [0x76], sk_filter = Some [], sk_filterKey = Some [],
      sk_trailing = []\<rparr>"
  by (simp add: parseSearchKey_def buildSearchKey_def orEmpty_def breakKey_def
      splitOnUnescapedSeparator_def splitString_def matchChar_def unescape_def element_def
      char_defs Let_def)

text \<open>
  C9 as stated, \<open>keyHasPrefix key pre\<close> holds exactly when \<open>key\<close> starts with \<open>pre\<close>
  followed by an unescaped key separator, is false: for the key \<^verbatim>\<open>\K\<close> and the prefix
  \<^verbatim>\<open>\\<close> the function returns true, and the key separator behind the prefix is
  escaped by the backslash that ends the prefix.
\<close>

theorem keyHasPrefix_counterexample:
  "\<not> (keyHasPrefix [backslash, keySeparator] [backslash] \<longleftrightarrow>
       (isPrefixOf ([backslash] @ [keySeparator]) [backslash, keySeparator] \<and>
        even (backslashRunBefore [backslash, keySeparator] (length [backslash]))))"
  by (simp add: keyHasPrefix_def backslashRunBefore_def)

text \<open>
  C9, amended.  \<open>keyHasPrefix key pre\<close> holds exactly when \<open>key\<close> starts with \<open>pre\<close>
  followed by the key separator.  When \<open>pre\<close> does not end in an odd run of backslashes
  this is exactly when \<open>key\<close> starts with \<open>pre\<close> followed by an unescaped key separator.
  In particular the key built from \<^verbatim>\<open>TF\<close> and \<^verbatim>\<open>x\<close> has the prefix \<^verbatim>\<open>TF\<close>,
  and the key built from \<^verbatim>\<open>TFX\<close> and \<^verbatim>\<open>x\<close> has not.
\<close>

theorem keyHasPrefix_literal:
  "(keyHasPrefix key pre \<longleftrightarrow> isPrefixOf (pre @ [keySeparator]) key) \<and>
   (even (backslashRun (rev pre)) \<longrightarrow>
      (keyHasPrefix key pre \<longleftrightarrow>
         isPrefixOf (pre @ [keySeparator]) key \<and>
         even (backslashRunBefore key (length pre)))) \<and>
   keyHasPrefix (buildKey [[0x54, 0x46], [0x78]]) [0x54, 0x46] \<and>
   \<not> keyHasPrefix (buildKey [[0x54, 0x46, 0x58], [0x78]]) [0x54, 0x46]"
proof -
  have a: "keyHasPrefix key pre \<longleftrightarrow> isPrefixOf (pre @ [keySeparator]) key"
    by (simp add: keyHasPrefix_def isPrefixOf_take)
  have "take (length pre) key = pre" if "keyHasPrefix key pre"
  proof -
    from that have "take (length pre) (take (length pre + 1) key) =
                    take (length pre) (pre @ [keySeparator])"
      by (simp add: keyHasPrefix_def)
    then show ?thesis by (simp add: min_def)
  qed
  then have b: "keyHasPrefix key pre \<Longrightarrow>
                backslashRunBefore key (length pre) = backslashRun (rev pre)"
    by (simp add: backslashRunBefore_def)
  have c: "keyHasPrefix (buildKey [[0x54, 0x46], [0x78]]) [0x54, 0x46]"
    by (simp add: keyHasPrefix_def buildKey_def escape_def char_defs)
  have d: "\<not> keyHasPrefix (buildKey [[0x54, 0x46, 0x58], [0x78]]) [0x54, 0x46]"
    by (simp add: keyHasPrefix_def buildKey_def escape_def char_defs)
  from a b c d show ?thesis by metis
qed

theorem keyHasPrefix_literal_witness:
  "even (backslashRun (rev [0x54, 0x46])) \<and>
   keyHasPrefix (buildKey [[0x54, 0x46], [0x78]]) [0x54, 0x46] \<and>
   isPrefixOf ([0x54, 0x46] @ [keySeparator]) (buildKey [[0x54, 0x46], [0x78]]) \<and>
   even (backslashRunBefore (buildKey [[0x54, 0x46], [0x78]]) (length [0x54, 0x46 :: cu]))"
proof -
  have h: "even (backslashRun (rev [0x54, 0x46]))"
    by (simp add: char_defs)
  from h keyHasPrefix_literal[of "buildKey [[0x54, 0x46], [0x78]]" "[0x54, 0x46]"]
  show ?thesis by blast
qed

text \<open>
  C10.  \<open>parseKey\<close> and \<open>parseSearchKey\<close> both store the list of components in the one
  global variable \<open>parts\<close>.  After \<open>parseSearchKey\<close> the variable holds the components
  of the key, after \<open>parseKey\<close> the components behind the first, whatever it held
  before: a call overwrites what the call before it stored, and a call made when the
  variable does not exist creates it.
\<close>

theorem parts_global:
  "parts (snd (parseKey key g)) = Some (tl (breakKey key)) \<and>
   parts (snd (parseSearchKey key g)) = Some (breakKey key) \<and>
   parts (snd (parseSearchKey k2 (snd (parseKey k1 g)))) = Some (breakKey k2) \<and>
   parts (snd (parseKey k2 (snd (parseSearchKey k1 g)))) = Some (tl (breakKey k2)) \<and>
   snd (parseKey key \<lparr>parts = None\<rparr>) \<noteq> \<lparr>parts = None\<rparr> \<and>
   snd (parseSearchKey key \<lparr>parts = None\<rparr>) \<noteq> \<lparr>parts = None\<rparr>"
  by (simp add: parseKey_def parseSearchKey_def Let_def)

section \<open>Properties of the tokenizer\<close>

text \<open>
  C8.  With \<^verbatim>\<open>null\<close> or \<^verbatim>\<open>false\<close> for the separator, \<open>tokenize\<close> is to return the
  whole text as its one token.  It compiles the empty pattern, which matches between any
  two characters, and returns the characters of the text one by one: \<^verbatim>\<open>ab\<close> gives
  \<^verbatim>\<open>a\<close> and \<^verbatim>\<open>b\<close>.
\<close>

theorem tokenize_null_separator:
  "tokenize [0x61, 0x62] False Null = [Some [0x61], Some [0x62]] \<and>
   tokenize [0x61, 0x62] False FalseValue = [Some [0x61], Some [0x62]] \<and>
   tokenize [0x61, 0x62] False Null \<noteq> [Some [0x61, 0x62]] \<and>
   tokenize [0x61, 0x62] False FalseValue \<noteq> [Some [0x61, 0x62]]"
  by code_simp




end
